theory Spec2Isabelle
  imports Main
begin

section \<open>Strings and the two slash patterns\<close>

text \<open>
  A JavaScript string is modelled as a \<^typ>\<open>string\<close>, a list of code units. The module
  only compares code units with fixed ASCII characters, concatenates, splits and joins,
  so the width of a unit plays no role.

  \<^verbatim>\<open>const FINAL_SLASH_RE = /\/+$/\<close> and \<^verbatim>\<open>const INITIAL_SLASH_RE = /^\/+/\<close>
  carry no flag. \<^verbatim>\<open>s.replace(FINAL_SLASH_RE, "")\<close> deletes the leftmost match of
  "one or more slashes, then the end of the input", which is the whole final run of
  slashes; \<^verbatim>\<open>s.replace(INITIAL_SLASH_RE, "")\<close> deletes the whole initial run.
\<close>

definition is_slash :: "char \<Rightarrow> bool" where
  "is_slash c = (c = CHR ''/'')"

definition replace_FINAL_SLASH_RE :: "string \<Rightarrow> string" where
  "replace_FINAL_SLASH_RE s = rev (dropWhile is_slash (rev s))"

definition replace_INITIAL_SLASH_RE :: "string \<Rightarrow> string" where
  "replace_INITIAL_SLASH_RE s = dropWhile is_slash s"

text \<open>
  \<^verbatim>\<open>s.split("/")\<close> and \<^verbatim>\<open>parts.join("/")\<close>. Splitting the empty string gives one
  empty part; joining no parts gives the empty string.
\<close>

fun split_slash :: "string \<Rightarrow> string list" where
  "split_slash [] = [[]]"
| "split_slash (c # cs) =
     (if c = CHR ''/'' then [] # split_slash cs
      else (c # hd (split_slash cs)) # tl (split_slash cs))"

fun join_slash :: "string list \<Rightarrow> string" where
  "join_slash [] = []"
| "join_slash [x] = x"
| "join_slash (x # y # ys) = x @ ''/'' @ join_slash (y # ys)"

section \<open>makePath\<close>

text \<open>
  \<^verbatim>\<open>
  export function makePath(basePath: string, subPath: string): string {
    basePath = basePath.replace(FINAL_SLASH_RE, "").replace(INITIAL_SLASH_RE, "")
    subPath = subPath.replace(FINAL_SLASH_RE, "").replace(INITIAL_SLASH_RE, "")
    if (basePath.length === 0) {
      return subPath
    }
    return `${basePath}/${subPath}`
  }
  \<close>
\<close>

definition makePath :: "string \<Rightarrow> string \<Rightarrow> string" where
  "makePath basePath subPath =
     (let basePath' = replace_INITIAL_SLASH_RE (replace_FINAL_SLASH_RE basePath);
          subPath' = replace_INITIAL_SLASH_RE (replace_FINAL_SLASH_RE subPath)
      in if length basePath' = 0 then subPath'
         else basePath' @ ''/'' @ subPath')"

section \<open>The URL objects of the platform\<close>

text \<open>
  \<^verbatim>\<open>URL\<close> is the class of the host platform (the URL standard), not code of this
  module. The module reads \<^verbatim>\<open>hostname\<close>, \<^verbatim>\<open>port\<close> and \<^verbatim>\<open>pathname\<close> and assigns
  \<^verbatim>\<open>port\<close> and \<^verbatim>\<open>pathname\<close>, so these accessors are modelled, for the URLs a page of
  the application can have: scheme \<^verbatim>\<open>http\<close> or \<^verbatim>\<open>https\<close>, a host, a path that is a
  list of segments.

  A URL record holds the port as a number or as nothing (the scheme's default port is
  always held as nothing) and the path as a list of segments. The \<^verbatim>\<open>pathname\<close> getter
  is the standard's path serialiser ("for each segment of url's path: append U+002F (/)
  followed by segment to output"), so it always starts with a slash: the source relies
  on this when it compares the normalised \<^verbatim>\<open>pathname\<close> with \<^verbatim>\<open>"/"\<close> in
  \<^verbatim>\<open>getPossibleBaseUris\<close>.
\<close>

datatype scheme = HTTP | HTTPS

fun scheme_string :: "scheme \<Rightarrow> string" where
  "scheme_string HTTP = ''http''"
| "scheme_string HTTPS = ''https''"

fun default_port :: "scheme \<Rightarrow> nat" where
  "default_port HTTP = 80"
| "default_port HTTPS = 443"

record URL =
  scheme :: scheme
  username :: string
  password :: string
  host :: string
  port :: "nat option"
  path :: "string list"
  query :: "string option"
  fragment :: "string option"

text \<open>Decimal numerals, as the serialiser writes a port.\<close>

definition digit_char :: "nat \<Rightarrow> char" where
  "digit_char d = ''0123456789'' ! d"

function decimal :: "nat \<Rightarrow> string" where
  "decimal n = (if n < 10 then [digit_char n] else decimal (n div 10) @ [digit_char (n mod 10)])"
  by pat_completeness auto
termination
  by (relation "measure id") auto

declare decimal.simps [simp del]

definition is_ascii_digit :: "char \<Rightarrow> bool" where
  "is_ascii_digit c = (48 \<le> (of_char c :: nat) \<and> (of_char c :: nat) \<le> 57)"

definition digits_value :: "string \<Rightarrow> nat" where
  "digits_value buffer = foldl (\<lambda>n c. 10 * n + ((of_char c :: nat) - 48)) 0 buffer"

definition is_tab_or_newline :: "char \<Rightarrow> bool" where
  "is_tab_or_newline c = ((of_char c :: nat) \<in> {0x09, 0x0A, 0x0D})"

subsection \<open>Getters\<close>

definition URL_protocol :: "URL \<Rightarrow> string" where
  "URL_protocol u = scheme_string (scheme u) @ '':''"

definition URL_hostname :: "URL \<Rightarrow> string" where
  "URL_hostname u = host u"

definition URL_port :: "URL \<Rightarrow> string" where
  "URL_port u = (case port u of None \<Rightarrow> [] | Some p \<Rightarrow> decimal p)"

definition URL_pathname :: "URL \<Rightarrow> string" where
  "URL_pathname u = concat (map (\<lambda>segment. ''/'' @ segment) (path u))"

definition URL_href :: "URL \<Rightarrow> string" where
  "URL_href u =
     scheme_string (scheme u) @ '':'' @ ''//''
     @ (if username u \<noteq> [] \<or> password u \<noteq> []
        then username u @ (if password u \<noteq> [] then '':'' @ password u else []) @ ''@''
        else [])
     @ host u
     @ (case port u of None \<Rightarrow> [] | Some p \<Rightarrow> '':'' @ decimal p)
     @ URL_pathname u
     @ (case query u of None \<Rightarrow> [] | Some q \<Rightarrow> ''?'' @ q)
     @ (case fragment u of None \<Rightarrow> [] | Some f \<Rightarrow> ''#'' @ f)"

subsection \<open>The port setter\<close>

text \<open>
  \<^verbatim>\<open>url.port = v\<close>: nothing happens on a URL without host; the empty string clears
  the port; otherwise tabs and newlines are dropped, the leading ASCII digits are read
  as a decimal number, and the assignment is ignored when there is no digit or the
  number exceeds 65535. A number equal to the default port of the URL's scheme is
  stored as "no port" (the standard's port state: "set url's port to null, if port is
  url's scheme's default port; otherwise to port"), so the getter then returns the empty
  string.
\<close>

definition URL_set_port :: "string \<Rightarrow> URL \<Rightarrow> URL" where
  "URL_set_port v u =
     (if host u = [] then u
      else if v = [] then u\<lparr>port := None\<rparr>
      else
        let input = filter (\<lambda>c. \<not> is_tab_or_newline c) v;
            buffer = takeWhile is_ascii_digit input
        in if buffer = [] then u
           else if digits_value buffer > 65535 then u
           else if digits_value buffer = default_port (scheme u) then u\<lparr>port := None\<rparr>
           else u\<lparr>port := Some (digits_value buffer)\<rparr>)"

subsection \<open>The pathname setter\<close>

text \<open>
  \<^verbatim>\<open>url.pathname = v\<close> empties the path and runs the URL parser on \<open>v\<close> from its
  "path start" state: tabs and newlines are dropped, one leading slash or backslash is
  skipped, and the rest is cut into segments at every slash and backslash. A code unit of
  the path percent-encode set is written as \<^verbatim>\<open>%XX\<close>; a segment \<^verbatim>\<open>.\<close> is dropped and a
  segment \<^verbatim>\<open>..\<close> removes the segment before it (both also spelled with \<^verbatim>\<open>%2e\<close>).
  The path of an http(s) URL is never empty: assigning \<^verbatim>\<open>""\<close> gives the single empty
  segment, whose \<^verbatim>\<open>pathname\<close> is \<^verbatim>\<open>"/"\<close>.
\<close>

definition in_path_percent_encode_set :: "char \<Rightarrow> bool" where
  "in_path_percent_encode_set c =
     ((of_char c :: nat) \<le> 0x1F \<or> (of_char c :: nat) > 0x7E
      \<or> (of_char c :: nat) \<in> {0x20, 0x22, 0x23, 0x3C, 0x3E, 0x3F, 0x5E, 0x60, 0x7B, 0x7D})"

definition hex_digit :: "nat \<Rightarrow> char" where
  "hex_digit d = ''0123456789ABCDEF'' ! d"

definition percent_encode :: "char \<Rightarrow> string" where
  "percent_encode c =
     (if in_path_percent_encode_set c
      then [CHR ''%'', hex_digit ((of_char c :: nat) div 16), hex_digit ((of_char c :: nat) mod 16)]
      else [c])"

definition is_single_dot :: "string \<Rightarrow> bool" where
  "is_single_dot buffer = (buffer \<in> set [''.'', ''%2e'', ''%2E''])"

definition is_double_dot :: "string \<Rightarrow> bool" where
  "is_double_dot buffer =
     (buffer \<in> set [''..'', ''.%2e'', ''.%2E'', ''%2e.'', ''%2E.'',
                     ''%2e%2e'', ''%2e%2E'', ''%2E%2e'', ''%2E%2E''])"

definition shorten :: "string list \<Rightarrow> string list" where
  "shorten p = butlast p"

definition is_separator :: "char \<Rightarrow> bool" where
  "is_separator c = (c = CHR ''/'' \<or> c = CHR 0x5C)"

fun path_state :: "string \<Rightarrow> string \<Rightarrow> string list \<Rightarrow> string list" where
  "path_state [] buffer p =
     (if is_double_dot buffer then shorten p @ [[]]
      else if is_single_dot buffer then p @ [[]]
      else p @ [buffer])"
| "path_state (c # cs) buffer p =
     (if is_separator c then
        path_state cs []
          (if is_double_dot buffer then shorten p
           else if is_single_dot buffer then p
           else p @ [buffer])
      else path_state cs (buffer @ percent_encode c) p)"

definition path_start_state :: "string \<Rightarrow> string list" where
  "path_start_state input =
     (case input of
        [] \<Rightarrow> path_state [] [] []
      | c # cs \<Rightarrow> if is_separator c then path_state cs [] [] else path_state (c # cs) [] [])"

definition URL_set_pathname :: "string \<Rightarrow> URL \<Rightarrow> URL" where
  "URL_set_pathname v u =
     u\<lparr>path := path_start_state (filter (\<lambda>c. \<not> is_tab_or_newline c) v)\<rparr>"

subsection \<open>What the URL parser guarantees of a page URL\<close>

text \<open>
  A URL record that the platform parsed from a page address has a host and at least one
  path segment, and no segment holds a separator, a code unit that would be
  percent-encoded, or a dot segment: the parser has already split, encoded and resolved
  them. The module's documentation takes the page location to be well formed.
\<close>

definition path_segment_ok :: "string \<Rightarrow> bool" where
  "path_segment_ok segment =
     (list_all (\<lambda>c. \<not> is_separator c \<and> \<not> in_path_percent_encode_set c) segment
      \<and> \<not> is_single_dot segment \<and> \<not> is_double_dot segment)"

definition URL_wf :: "URL \<Rightarrow> bool" where
  "URL_wf u = (host u \<noteq> [] \<and> path u \<noteq> [] \<and> list_all path_segment_ok (path u))"

section \<open>The page environment\<close>

text \<open>
  \<^verbatim>\<open>window.location\<close> is held as the URL record of the page;
  \<^verbatim>\<open>window.location.href\<close> is its serialisation and
  \<^verbatim>\<open>new URL(window.location.href)\<close> is a fresh copy of the record. \<^verbatim>\<open>IS_DEV_ENV\<close>
  and \<^verbatim>\<open>WEBSOCKET_PORT_DEV\<close> are imported from \<^verbatim>\<open>~lib/baseconsts\<close>; they are
  parameters here.
\<close>

record window =
  location :: URL
  IS_DEV_ENV :: bool
  WEBSOCKET_PORT_DEV :: string

text \<open>
  \<^verbatim>\<open>
  function isHttps(): boolean {
    return window.location.href.startsWith("https://")
  }
  \<close>
\<close>

definition isHttps :: "window \<Rightarrow> bool" where
  "isHttps w = (take (length ''https://'') (URL_href (location w)) = ''https://'')"

section \<open>getWindowBaseUriParts\<close>

text \<open>
  \<^verbatim>\<open>
  export function getWindowBaseUriParts(): URL {
    const currentUrl = new URL(window.location.href)
    if (IS_DEV_ENV) {
      currentUrl.port = WEBSOCKET_PORT_DEV
    } else if (!currentUrl.port) {
      currentUrl.port = isHttps() ? "443" : "80"
    }
    currentUrl.pathname = currentUrl.pathname
      .replace(FINAL_SLASH_RE, "")
      .replace(INITIAL_SLASH_RE, "")
    return currentUrl
  }
  \<close>
  \<^verbatim>\<open>!currentUrl.port\<close> holds exactly when the getter returns the empty string.
\<close>

definition getWindowBaseUriParts :: "window \<Rightarrow> URL" where
  "getWindowBaseUriParts w =
     (let currentUrl = location w;
          currentUrl =
            (if IS_DEV_ENV w then URL_set_port (WEBSOCKET_PORT_DEV w) currentUrl
             else if URL_port currentUrl = [] then
               URL_set_port (if isHttps w then ''443'' else ''80'') currentUrl
             else currentUrl)
      in URL_set_pathname
           (replace_INITIAL_SLASH_RE (replace_FINAL_SLASH_RE (URL_pathname currentUrl)))
           currentUrl)"

section \<open>getPossibleBaseUris\<close>

text \<open>
  \<^verbatim>\<open>
  export function getPossibleBaseUris(): Array<URL> {
    const baseUriParts = getWindowBaseUriParts()
    const { pathname } = baseUriParts
    if (pathname === "/") {
      return [baseUriParts]
    }
    const parts = pathname.split("/")
    const possibleBaseUris: Array<URL> = []
    while (parts.length > 0) {
      const newURL = new URL(baseUriParts)
      newURL.pathname = parts.join("/")
      possibleBaseUris.push(newURL)
      parts.pop()
    }
    return take(possibleBaseUris, 2)
  }
  \<close>
  The loop is a recursion on \<open>parts\<close>, which loses its last element in every round.
  \<^verbatim>\<open>new URL(baseUriParts)\<close> copies the record.
\<close>

function possibleBaseUris_loop :: "URL \<Rightarrow> string list \<Rightarrow> URL list \<Rightarrow> URL list" where
  "possibleBaseUris_loop baseUriParts parts possibleBaseUris =
     (if length parts > 0 then
        possibleBaseUris_loop baseUriParts (butlast parts)
          (possibleBaseUris @ [URL_set_pathname (join_slash parts) baseUriParts])
      else possibleBaseUris)"
  by pat_completeness auto
termination
  by (relation "measure (\<lambda>(b, parts, acc). length parts)") auto

declare possibleBaseUris_loop.simps [simp del]

definition getPossibleBaseUris :: "window \<Rightarrow> URL list" where
  "getPossibleBaseUris w =
     (let baseUriParts = getWindowBaseUriParts w;
          pathname = URL_pathname baseUriParts
      in if pathname = ''/'' then [baseUriParts]
         else take 2 (possibleBaseUris_loop baseUriParts (split_slash pathname) []))"

section \<open>buildWsUri and buildHttpUri\<close>

text \<open>
  \<^verbatim>\<open>
  export function buildWsUri({ hostname, port, pathname }: URL, path: string): string {
    const protocol = isHttps() ? "wss" : "ws"
    const fullPath = makePath(pathname, path)
    return `${protocol}://${hostname}:${port}/${fullPath}`
  }
  export function buildHttpUri({ hostname, port, pathname }: URL, path: string): string {
    const protocol = isHttps() ? "https" : "http"
    const fullPath = makePath(pathname, path)
    return `${protocol}://${hostname}:${port}/${fullPath}`
  }
  \<close>
\<close>

definition buildWsUri :: "window \<Rightarrow> URL \<Rightarrow> string \<Rightarrow> string" where
  "buildWsUri w u path' =
     (let protocol = (if isHttps w then ''wss'' else ''ws'');
          fullPath = makePath (URL_pathname u) path'
      in protocol @ ''://'' @ URL_hostname u @ '':'' @ URL_port u @ ''/'' @ fullPath)"

definition buildHttpUri :: "window \<Rightarrow> URL \<Rightarrow> string \<Rightarrow> string" where
  "buildHttpUri w u path' =
     (let protocol = (if isHttps w then ''https'' else ''http'');
          fullPath = makePath (URL_pathname u) path'
      in protocol @ ''://'' @ URL_hostname u @ '':'' @ URL_port u @ ''/'' @ fullPath)"

section \<open>isValidOrigin\<close>

text \<open>
  \<^verbatim>\<open>URLPattern\<close> (here from \<^verbatim>\<open>urlpattern-polyfill\<close>) and the \<^verbatim>\<open>URL\<close> constructor on
  an arbitrary string belong to the platform. \<^verbatim>\<open>isValidOrigin\<close> is modelled over any
  platform, given as a record of the operations the function calls:
  \<^item> the two constructors of a pattern (from a string; from the fields \<^verbatim>\<open>protocol\<close> and
    \<^verbatim>\<open>hostname\<close>) and the constructor of a URL, each of which can throw;
  \<^item> the getters \<^verbatim>\<open>protocol\<close> and \<^verbatim>\<open>hostname\<close> of a pattern and \<^verbatim>\<open>hostname\<close> of
    a URL, and \<^verbatim>\<open>test\<close> on a URL object, which do not throw (\<^verbatim>\<open>test\<close> treats an
    exception inside the match as "no match").
  A call that throws returns \<open>Inl\<close> of the error; the result of \<^verbatim>\<open>isValidOrigin\<close> is
  \<open>Inl\<close> when an exception leaves the function and \<open>Inr\<close> of the boolean otherwise.
\<close>

datatype js_error = TypeError

record ('pattern, 'url) platform =
  new_URLPattern :: "string \<Rightarrow> js_error + 'pattern"
  new_URLPattern_init :: "string \<Rightarrow> string \<Rightarrow> js_error + 'pattern"
  URLPattern_protocol :: "'pattern \<Rightarrow> string"
  URLPattern_hostname :: "'pattern \<Rightarrow> string"
  URLPattern_test :: "'pattern \<Rightarrow> 'url \<Rightarrow> bool"
  new_URL :: "string \<Rightarrow> js_error + 'url"
  hostname_of :: "'url \<Rightarrow> string"

text \<open>
  \<^verbatim>\<open>
  export function isValidOrigin(allowedOriginPattern: string, testOrigin: string): boolean {
    let allowedUrlPattern: URLPattern
    let allowedPortLessPattern: URLPattern
    let testUrl: URL
    try {
      allowedUrlPattern = new URLPattern(allowedOriginPattern)
      allowedPortLessPattern = new URLPattern({
        protocol: allowedUrlPattern.protocol,
        hostname: allowedUrlPattern.hostname,
      })
      testUrl = new URL(testOrigin)
    } catch {
      return false
    }
    if (testUrl.hostname === "localhost" && allowedPortLessPattern.test(testUrl)) {
      return true
    }
    return allowedUrlPattern.test(testUrl)
  }
  \<close>
\<close>

definition isValidOrigin :: "('pattern, 'url) platform \<Rightarrow> string \<Rightarrow> string \<Rightarrow> js_error + bool" where
  "isValidOrigin pf allowedOriginPattern testOrigin =
     (case new_URLPattern pf allowedOriginPattern of
        Inl e \<Rightarrow> Inr False
      | Inr allowedUrlPattern \<Rightarrow>
          (case new_URLPattern_init pf (URLPattern_protocol pf allowedUrlPattern)
                  (URLPattern_hostname pf allowedUrlPattern) of
             Inl e \<Rightarrow> Inr False
           | Inr allowedPortLessPattern \<Rightarrow>
               (case new_URL pf testOrigin of
                  Inl e \<Rightarrow> Inr False
                | Inr testUrl \<Rightarrow>
                    if hostname_of pf testUrl = ''localhost''
                       \<and> URLPattern_test pf allowedPortLessPattern testUrl
                    then Inr True
                    else Inr (URLPattern_test pf allowedUrlPattern testUrl))))"

subsection \<open>A platform for plain origins\<close>

text \<open>
  An instance of the platform record for origins written \<^verbatim>\<open>scheme://host\<close> or
  \<^verbatim>\<open>scheme://host:port\<close>, on which \<^verbatim>\<open>isValidOrigin\<close> can be run. A pattern has a
  protocol, a hostname and a port component; \<^verbatim>\<open>*\<close> in a component matches any run of
  characters; a pattern built from protocol and hostname alone leaves the port free. A
  string without \<^verbatim>\<open>://\<close>, with an empty scheme or host, or with a space does not parse.
  The theorems about \<^verbatim>\<open>isValidOrigin\<close> are proved for every platform; this one
  only supplies concrete runs.
\<close>

record origin_pattern =
  pattern_protocol :: string
  pattern_hostname :: string
  pattern_port :: string

fun glob_match :: "string \<Rightarrow> string \<Rightarrow> bool" where
  "glob_match [] [] = True"
| "glob_match [] (c # cs) = False"
| "glob_match (p # ps) [] = (p = CHR ''*'' \<and> glob_match ps [])"
| "glob_match (p # ps) (c # cs) =
     (if p = CHR ''*'' then glob_match ps (c # cs) \<or> glob_match (p # ps) cs
      else p = c \<and> glob_match ps cs)"

fun split_scheme :: "string \<Rightarrow> (string \<times> string) option" where
  "split_scheme [] = None"
| "split_scheme (c # cs) =
     (if take 3 (c # cs) = ''://'' then Some ([], drop 3 (c # cs))
      else (case split_scheme cs of None \<Rightarrow> None | Some (a, b) \<Rightarrow> Some (c # a, b)))"

definition origin_parts :: "string \<Rightarrow> (string \<times> string \<times> string) option" where
  "origin_parts s =
     (case split_scheme s of
        None \<Rightarrow> None
      | Some (proto, rest) \<Rightarrow>
          let authority = takeWhile (\<lambda>c. c \<noteq> CHR ''/'') rest;
              h = takeWhile (\<lambda>c. c \<noteq> CHR '':'') authority;
              p = drop (length h + 1) authority
          in if proto = [] \<or> h = [] \<or> CHR '' '' \<in> set s then None
             else Some (proto, h, p))"

definition origin_new_URLPattern :: "string \<Rightarrow> js_error + origin_pattern" where
  "origin_new_URLPattern s =
     (case origin_parts s of
        None \<Rightarrow> Inl TypeError
      | Some (proto, h, p) \<Rightarrow>
          Inr \<lparr>pattern_protocol = proto, pattern_hostname = h, pattern_port = p\<rparr>)"

definition origin_new_URLPattern_init :: "string \<Rightarrow> string \<Rightarrow> js_error + origin_pattern" where
  "origin_new_URLPattern_init proto h =
     Inr \<lparr>pattern_protocol = proto, pattern_hostname = h, pattern_port = ''*''\<rparr>"

definition origin_new_URL :: "string \<Rightarrow> js_error + URL" where
  "origin_new_URL s =
     (case origin_parts s of
        None \<Rightarrow> Inl TypeError
      | Some (proto, h, p) \<Rightarrow>
          if (proto = ''http'' \<or> proto = ''https'') \<and> list_all is_ascii_digit p
             \<and> digits_value p \<le> 65535
          then Inr (URL_set_port p
                 \<lparr>scheme = (if proto = ''https'' then HTTPS else HTTP), username = [],
                  password = [], host = h, port = None, path = [[]], query = None,
                  fragment = None\<rparr>)
          else Inl TypeError)"

definition origin_test :: "origin_pattern \<Rightarrow> URL \<Rightarrow> bool" where
  "origin_test pat u =
     (glob_match (pattern_protocol pat) (scheme_string (scheme u))
      \<and> glob_match (pattern_hostname pat) (URL_hostname u)
      \<and> glob_match (pattern_port pat) (URL_port u))"

definition origin_platform :: "(origin_pattern, URL) platform" where
  "origin_platform =
     \<lparr>new_URLPattern = origin_new_URLPattern,
      new_URLPattern_init = origin_new_URLPattern_init,
      URLPattern_protocol = pattern_protocol,
      URLPattern_hostname = pattern_hostname,
      URLPattern_test = origin_test,
      new_URL = origin_new_URL,
      hostname_of = URL_hostname\<rparr>"

section \<open>Concrete pages\<close>

text \<open>
  \<open>page s p segments\<close> is the production page at scheme \<open>s\<close>, host
  \<^verbatim>\<open>example.com\<close>, port \<open>p\<close> and the given path segments; the development port
  constant is \<^verbatim>\<open>"8501"\<close>, as the comment in \<^verbatim>\<open>getWindowBaseUriParts\<close> says.
\<close>

definition page :: "scheme \<Rightarrow> nat option \<Rightarrow> string list \<Rightarrow> window" where
  "page s p segments =
     \<lparr>location = \<lparr>scheme = s, username = [], password = [], host = ''example.com'',
                  port = p, path = segments, query = None, fragment = None\<rparr>,
      IS_DEV_ENV = False, WEBSOCKET_PORT_DEV = ''8501''\<rparr>"

section \<open>Slash-free ends\<close>

text \<open>
  \<open>strip_slashes\<close> is the chain
  \<^verbatim>\<open>.replace(FINAL_SLASH_RE, "").replace(INITIAL_SLASH_RE, "")\<close> that the source applies in
  three places; \<open>trimmed s\<close> says that \<open>s\<close> neither starts nor ends with a slash.
\<close>

definition strip_slashes :: "string \<Rightarrow> string" where
  "strip_slashes s = replace_INITIAL_SLASH_RE (replace_FINAL_SLASH_RE s)"

definition trimmed :: "string \<Rightarrow> bool" where
  "trimmed s = (s = [] \<or> (\<not> is_slash (hd s) \<and> \<not> is_slash (last s)))"

section \<open>Facts about slash stripping\<close>

lemma strip_slashes_no_slash:
  "CHR ''/'' \<notin> set s \<Longrightarrow> strip_slashes s = s"
proof -
  assume a: "CHR ''/'' \<notin> set s"
  have r: "dropWhile is_slash (rev s) = rev s"
    using a by (cases "rev s") (auto simp: is_slash_def)
  have l: "dropWhile is_slash s = s"
    using a by (cases s) (auto simp: is_slash_def)
  show ?thesis
    by (simp add: strip_slashes_def replace_FINAL_SLASH_RE_def
        replace_INITIAL_SLASH_RE_def r l)
qed

lemma dropWhile_trimmed_id: "trimmed s \<Longrightarrow> dropWhile is_slash s = s"
  by (cases s) (auto simp: trimmed_def)

lemma dropWhile_hd_id: "xs \<noteq> [] \<Longrightarrow> \<not> P (hd xs) \<Longrightarrow> dropWhile P xs = xs"
  by (cases xs) auto

lemma final_trimmed_id: "trimmed s \<Longrightarrow> replace_FINAL_SLASH_RE s = s"
proof (cases "s = []")
  case True
  then show ?thesis by (simp add: replace_FINAL_SLASH_RE_def)
next
  case False
  assume t: "trimmed s"
  have "hd (rev s) = last s" using False by (simp add: hd_rev)
  with t False have "\<not> is_slash (hd (rev s))" by (simp add: trimmed_def)
  moreover have "rev s \<noteq> []" using False by simp
  ultimately have "dropWhile is_slash (rev s) = rev s" by (rule dropWhile_hd_id[rotated])
  then show ?thesis by (simp add: replace_FINAL_SLASH_RE_def)
qed

lemma strip_slashes_trimmed_id: "trimmed s \<Longrightarrow> strip_slashes s = s"
  by (simp add: strip_slashes_def final_trimmed_id replace_INITIAL_SLASH_RE_def dropWhile_trimmed_id)

lemma final_last: "replace_FINAL_SLASH_RE s \<noteq> [] \<Longrightarrow> \<not> is_slash (last (replace_FINAL_SLASH_RE s))"
proof -
  assume a: "replace_FINAL_SLASH_RE s \<noteq> []"
  then have "dropWhile is_slash (rev s) \<noteq> []" by (simp add: replace_FINAL_SLASH_RE_def)
  then have "\<not> is_slash (hd (dropWhile is_slash (rev s)))" by (rule hd_dropWhile)
  then show ?thesis using a by (simp add: replace_FINAL_SLASH_RE_def last_rev)
qed

lemma trimmed_strip_slashes: "trimmed (strip_slashes s)"
proof (cases "strip_slashes s = []")
  case True
  then show ?thesis by (simp add: trimmed_def)
next
  case False
  let ?f = "replace_FINAL_SLASH_RE s"
  from False have ne: "dropWhile is_slash ?f \<noteq> []"
    by (simp add: strip_slashes_def replace_INITIAL_SLASH_RE_def)
  then have h: "\<not> is_slash (hd (dropWhile is_slash ?f))" by (rule hd_dropWhile)
  from ne have fne: "?f \<noteq> []" by auto
  have "last (dropWhile is_slash ?f) = last ?f"
    using ne by (metis last_appendR takeWhile_dropWhile_id)
  with final_last[OF fne] have l: "\<not> is_slash (last (dropWhile is_slash ?f))" by simp
  show ?thesis using h l
    by (simp add: trimmed_def strip_slashes_def replace_INITIAL_SLASH_RE_def)
qed

lemma final_append_slash: "trimmed a \<Longrightarrow> replace_FINAL_SLASH_RE (a @ ''/'') = a"
proof -
  assume t: "trimmed a"
  have "replace_FINAL_SLASH_RE (a @ ''/'') = replace_FINAL_SLASH_RE a"
    by (simp add: replace_FINAL_SLASH_RE_def is_slash_def)
  with t show ?thesis by (simp add: final_trimmed_id)
qed

lemma trimmed_join: "trimmed a \<Longrightarrow> a \<noteq> [] \<Longrightarrow> trimmed b \<Longrightarrow> b \<noteq> [] \<Longrightarrow> trimmed (a @ ''/'' @ b)"
  by (simp add: trimmed_def)

lemma makePath_eq: "makePath a b = (if strip_slashes a = [] then strip_slashes b else strip_slashes a @ ''/'' @ strip_slashes b)"
  by (simp add: makePath_def strip_slashes_def Let_def)

lemma strip_nil: "strip_slashes [] = []"
  by (simp add: strip_slashes_def replace_FINAL_SLASH_RE_def replace_INITIAL_SLASH_RE_def)

lemma makePath_nil: "makePath r [] = (if strip_slashes r = [] then [] else strip_slashes r @ ''/'')"
  by (simp add: makePath_eq strip_nil)

section \<open>Facts about splitting, joining and the pathname setter\<close>

lemma split_slash_nonempty: "split_slash s \<noteq> []"
  by (induction s) auto

lemma concat_split_slash: "concat (map (\<lambda>segment. ''/'' @ segment) (split_slash s)) = ''/'' @ s"
proof (induction s)
  case Nil
  show ?case by simp
next
  case (Cons c cs)
  obtain x xs where sp: "split_slash cs = x # xs"
    using split_slash_nonempty[of cs] by (cases "split_slash cs") auto
  with Cons show ?case by auto
qed

lemma join_split_slash: "join_slash (split_slash s) = s"
proof (induction s)
  case Nil
  show ?case by simp
next
  case (Cons c cs)
  obtain x xs where sp: "split_slash cs = x # xs"
    using split_slash_nonempty[of cs] by (cases "split_slash cs") auto
  with Cons show ?case by (cases xs) auto
qed

lemma split_slash_no_slash: "CHR ''/'' \<notin> set x \<Longrightarrow> split_slash (x @ CHR ''/'' # s) = x # split_slash s"
  by (induction x) auto

lemma split_slash_no_slash_single: "CHR ''/'' \<notin> set x \<Longrightarrow> split_slash x = [x]"
  by (induction x) auto

lemma split_join_slash:
  "xs \<noteq> [] \<Longrightarrow> \<forall>x \<in> set xs. CHR ''/'' \<notin> set x \<Longrightarrow> split_slash (join_slash xs) = xs"
proof (induction xs rule: join_slash.induct)
  case 1
  then show ?case by simp
next
  case (2 x)
  then show ?case by (simp add: split_slash_no_slash_single)
next
  case (3 x y ys)
  then show ?case by (simp add: split_slash_no_slash)
qed

lemma split_slash_pathname:
  "\<forall>x \<in> set segs. CHR ''/'' \<notin> set x \<Longrightarrow>
   split_slash (concat (map (\<lambda>segment. ''/'' @ segment) segs)) = [] # segs"
proof (induction segs)
  case Nil
  show ?case by simp
next
  case (Cons x xs)
  then have "split_slash (concat (map (\<lambda>segment. ''/'' @ segment) xs)) = [] # xs" by simp
  moreover have "CHR ''/'' \<notin> set x" using Cons.prems by simp
  ultimately show ?case
    by (cases xs) (simp_all add: split_slash_no_slash split_slash_no_slash_single)
qed

lemma split_slash_snoc: "split_slash (s @ ''/'') = split_slash s @ [[]]"
proof (induction s)
  case Nil
  show ?case by simp
next
  case (Cons c cs)
  then show ?case using split_slash_nonempty[of cs] by (cases "split_slash cs") auto
qed

lemma set_split_initial: "set (split_slash (replace_INITIAL_SLASH_RE s)) \<subseteq> set (split_slash s)"
  unfolding replace_INITIAL_SLASH_RE_def
  by (induction s) (auto simp: is_slash_def)

lemma set_split_final: "set (split_slash (replace_FINAL_SLASH_RE s)) \<subseteq> set (split_slash s)"
proof (induction s rule: rev_induct)
  case Nil
  show ?case by (simp add: replace_FINAL_SLASH_RE_def)
next
  case (snoc c cs)
  show ?case
  proof (cases "c = CHR ''/''")
    case True
    then have "replace_FINAL_SLASH_RE (cs @ [c]) = replace_FINAL_SLASH_RE cs"
      by (simp add: replace_FINAL_SLASH_RE_def is_slash_def)
    moreover have "split_slash (cs @ [c]) = split_slash cs @ [[]]"
      using True split_slash_snoc[of cs] by simp
    ultimately show ?thesis using snoc by auto
  next
    case False
    then have "replace_FINAL_SLASH_RE (cs @ [c]) = cs @ [c]"
      by (simp add: replace_FINAL_SLASH_RE_def is_slash_def)
    then show ?thesis by simp
  qed
qed

lemma set_split_strip: "set (split_slash (strip_slashes s)) \<subseteq> set (split_slash s)"
  unfolding strip_slashes_def
  using set_split_initial[of "replace_FINAL_SLASH_RE s"] set_split_final[of s] by blast

lemma path_segment_ok_Nil: "path_segment_ok []"
  by (simp add: path_segment_ok_def is_single_dot_def is_double_dot_def)

lemma path_segment_ok_no_slash: "path_segment_ok x \<Longrightarrow> CHR ''/'' \<notin> set x"
  by (auto simp: path_segment_ok_def list_all_iff is_separator_def)

lemma path_state_ok:
  "path_segment_ok (buffer @ hd (split_slash s)) \<Longrightarrow> list_all path_segment_ok (tl (split_slash s)) \<Longrightarrow>
   path_state s buffer p = p @ (buffer @ hd (split_slash s)) # tl (split_slash s)"
proof (induction s arbitrary: buffer p)
  case Nil
  then show ?case by (simp add: path_segment_ok_def)
next
  case (Cons c cs)
  show ?case
  proof (cases "c = CHR ''/''")
    case True
    from Cons.prems True have b: "path_segment_ok buffer"
      and r: "list_all path_segment_ok (split_slash cs)" by simp_all
    from r have "path_segment_ok ([] @ hd (split_slash cs))" "list_all path_segment_ok (tl (split_slash cs))"
      using split_slash_nonempty[of cs] by (cases "split_slash cs"; simp)+
    then have "path_state cs [] (p @ [buffer]) = (p @ [buffer]) @ ([] @ hd (split_slash cs)) # tl (split_slash cs)"
      by (rule Cons.IH)
    then show ?thesis using True b
      by (simp add: is_separator_def path_segment_ok_def split_slash_nonempty)
  next
    case False
    from Cons.prems False have ok: "path_segment_ok ((buffer @ [c]) @ hd (split_slash cs))"
      and r: "list_all path_segment_ok (tl (split_slash cs))" by simp_all
    have "c \<in> set ((buffer @ [c]) @ hd (split_slash cs))" by simp
    with ok have c: "\<not> is_separator c" "percent_encode c = [c]"
      by (auto simp: path_segment_ok_def list_all_iff percent_encode_def)
    have "path_state cs (buffer @ [c]) p = p @ ((buffer @ [c]) @ hd (split_slash cs)) # tl (split_slash cs)"
      using ok r by (rule Cons.IH)
    then show ?thesis using False c by simp
  qed
qed

lemma path_state_split:
  assumes "list_all path_segment_ok (split_slash s)"
  shows "path_state s [] [] = split_slash s"
proof -
  from assms have "path_segment_ok ([] @ hd (split_slash s))" "list_all path_segment_ok (tl (split_slash s))"
    using split_slash_nonempty[of s] by (cases "split_slash s"; simp)+
  then have "path_state s [] [] = [] @ ([] @ hd (split_slash s)) # tl (split_slash s)"
    by (rule path_state_ok)
  then show ?thesis by (simp add: split_slash_nonempty)
qed

lemma chars_of_split:
  "c \<in> set s \<Longrightarrow> c = CHR ''/'' \<or> (\<exists>x \<in> set (split_slash s). c \<in> set x)"
proof (induction s)
  case Nil
  then show ?case by simp
next
  case (Cons d ds)
  obtain x xs where sp: "split_slash ds = x # xs"
    using split_slash_nonempty[of ds] by (cases "split_slash ds") auto
  with Cons show ?case by auto
qed

lemma filter_tab_ok:
  assumes "list_all path_segment_ok (split_slash s)"
  shows "filter (\<lambda>c. \<not> is_tab_or_newline c) s = s"
proof -
  have "\<not> is_tab_or_newline c" if "c \<in> set s" for c
  proof -
    from chars_of_split[OF that] show ?thesis
    proof
      assume "c = CHR ''/''"
      then show ?thesis by (simp add: is_tab_or_newline_def)
    next
      assume "\<exists>x \<in> set (split_slash s). c \<in> set x"
      then obtain x where "x \<in> set (split_slash s)" "c \<in> set x" by blast
      with assms have "\<not> in_path_percent_encode_set c"
        by (auto simp: list_all_iff path_segment_ok_def)
      then show ?thesis by (auto simp: in_path_percent_encode_set_def is_tab_or_newline_def)
    qed
  qed
  then show ?thesis by (simp add: filter_id_conv)
qed

text \<open>The setter on a string of good segments that does not start with a slash.\<close>

lemma URL_set_pathname_ok:
  assumes ok: "list_all path_segment_ok (split_slash s)" and hd: "s = [] \<or> hd s \<noteq> CHR ''/''"
  shows "URL_set_pathname s u = u\<lparr>path := split_slash s\<rparr>"
proof -
  have f: "filter (\<lambda>c. \<not> is_tab_or_newline c) s = s" using ok by (rule filter_tab_ok)
  have "path_start_state s = split_slash s"
  proof (cases s)
    case Nil
    then show ?thesis by (simp add: path_start_state_def is_single_dot_def is_double_dot_def)
  next
    case (Cons c cs)
    with hd have ns: "c \<noteq> CHR ''/''" by simp
    then have "c \<in> set (hd (split_slash s))" using Cons by simp
    moreover have "path_segment_ok (hd (split_slash s))"
      using ok split_slash_nonempty[of s] by (cases "split_slash s") auto
    ultimately have "\<not> is_separator c" by (auto simp: path_segment_ok_def list_all_iff)
    then have "path_start_state s = path_state s [] []" using Cons by (simp add: path_start_state_def)
    then show ?thesis using ok by (simp add: path_state_split)
  qed
  then show ?thesis by (simp add: URL_set_pathname_def f)
qed

text \<open>The setter on a slash followed by a string of good segments.\<close>

lemma URL_set_pathname_slash_ok:
  assumes ok: "list_all path_segment_ok (split_slash s)"
  shows "URL_set_pathname (CHR ''/'' # s) u = u\<lparr>path := split_slash s\<rparr>"
proof -
  have "filter (\<lambda>c. \<not> is_tab_or_newline c) s = s" using ok by (rule filter_tab_ok)
  moreover have "\<not> is_tab_or_newline (CHR ''/'')" by (simp add: is_tab_or_newline_def)
  ultimately have f: "filter (\<lambda>c. \<not> is_tab_or_newline c) (CHR ''/'' # s) = CHR ''/'' # s"
    by simp
  have "path_start_state (CHR ''/'' # s) = path_state s [] []"
    by (simp add: path_start_state_def is_separator_def)
  then have "path_start_state (CHR ''/'' # s) = split_slash s"
    using ok by (simp add: path_state_split)
  then show ?thesis unfolding URL_set_pathname_def f by simp
qed

subsection \<open>The base URI\<close>

lemma URL_pathname_set_port [simp]: "URL_pathname (URL_set_port v u) = URL_pathname u"
  by (simp add: URL_set_port_def URL_pathname_def Let_def)

lemma path_set_port [simp]: "path (URL_set_port v u) = path u"
  by (simp add: URL_set_port_def Let_def)

lemma getWindowBaseUriParts_path_eq:
  "getWindowBaseUriParts w =
     URL_set_pathname (strip_slashes (URL_pathname (location w)))
       (if IS_DEV_ENV w then URL_set_port (WEBSOCKET_PORT_DEV w) (location w)
        else if URL_port (location w) = [] then
          URL_set_port (if isHttps w then ''443'' else ''80'') (location w)
        else location w)"
  by (simp add: getWindowBaseUriParts_def Let_def strip_slashes_def)

lemma URL_wf_split_pathname:
  assumes "URL_wf u"
  shows "split_slash (URL_pathname u) = [] # path u"
  unfolding URL_pathname_def
  using assms by (intro split_slash_pathname) (auto simp: URL_wf_def list_all_iff path_segment_ok_no_slash)

lemma strip_ok:
  assumes "URL_wf u"
  shows "list_all path_segment_ok (split_slash (strip_slashes (URL_pathname u)))"
proof -
  have "set (split_slash (strip_slashes (URL_pathname u))) \<subseteq> set ([] # path u)"
    using set_split_strip[of "URL_pathname u"] URL_wf_split_pathname[OF assms] by simp
  then show ?thesis
    using assms by (auto simp: list_all_iff URL_wf_def path_segment_ok_Nil)
qed

lemma strip_hd: "strip_slashes s = [] \<or> hd (strip_slashes s) \<noteq> CHR ''/''"
proof (cases "strip_slashes s = []")
  case True
  then show ?thesis by simp
next
  case False
  then have "dropWhile is_slash (replace_FINAL_SLASH_RE s) \<noteq> []"
    by (simp add: strip_slashes_def replace_INITIAL_SLASH_RE_def)
  then have "\<not> is_slash (hd (dropWhile is_slash (replace_FINAL_SLASH_RE s)))" by (rule hd_dropWhile)
  then show ?thesis by (simp add: strip_slashes_def replace_INITIAL_SLASH_RE_def is_slash_def)
qed

lemma getWindowBaseUriParts_path:
  assumes "URL_wf (location w)"
  shows "path (getWindowBaseUriParts w) = split_slash (strip_slashes (URL_pathname (location w)))"
  unfolding getWindowBaseUriParts_path_eq
  by (subst URL_set_pathname_ok[OF strip_ok[OF assms] strip_hd]) simp

lemma getWindowBaseUriParts_pathname:
  assumes "URL_wf (location w)"
  shows "URL_pathname (getWindowBaseUriParts w) = ''/'' @ strip_slashes (URL_pathname (location w))"
  using getWindowBaseUriParts_path[OF assms] concat_split_slash
  by (simp add: URL_pathname_def)


subsection \<open>The loop of getPossibleBaseUris\<close>

lemma loop_Nil: "possibleBaseUris_loop b [] acc = acc"
  by (simp add: possibleBaseUris_loop.simps)

lemma loop_step:
  "parts \<noteq> [] \<Longrightarrow>
   possibleBaseUris_loop b parts acc =
     possibleBaseUris_loop b (butlast parts) (acc @ [URL_set_pathname (join_slash parts) b])"
  by (subst possibleBaseUris_loop.simps) simp

lemma loop_acc: "possibleBaseUris_loop b parts acc = acc @ possibleBaseUris_loop b parts []"
proof (induction parts arbitrary: acc rule: rev_induct)
  case Nil
  show ?case by (simp add: loop_Nil)
next
  case (snoc x xs)
  let ?n = "URL_set_pathname (join_slash (xs @ [x])) b"
  have "possibleBaseUris_loop b (xs @ [x]) acc = possibleBaseUris_loop b xs (acc @ [?n])"
    by (simp add: loop_step)
  also have "\<dots> = (acc @ [?n]) @ possibleBaseUris_loop b xs []" by (rule snoc.IH)
  also have "\<dots> = acc @ possibleBaseUris_loop b xs [?n]"
    using snoc.IH[of "[?n]"] by simp
  also have "\<dots> = acc @ possibleBaseUris_loop b (xs @ [x]) []"
    by (simp add: loop_step)
  finally show ?case .
qed

lemma take_2_loop:
  assumes "parts \<noteq> []" "butlast parts \<noteq> []"
  shows "take 2 (possibleBaseUris_loop b parts []) =
         [URL_set_pathname (join_slash parts) b, URL_set_pathname (join_slash (butlast parts)) b]"
proof -
  let ?n1 = "URL_set_pathname (join_slash parts) b"
  let ?n2 = "URL_set_pathname (join_slash (butlast parts)) b"
  have "possibleBaseUris_loop b parts [] = possibleBaseUris_loop b (butlast parts) [?n1]"
    using assms(1) by (simp add: loop_step)
  also have "\<dots> = possibleBaseUris_loop b (butlast (butlast parts)) [?n1, ?n2]"
    using assms(2) by (simp add: loop_step)
  also have "\<dots> = [?n1, ?n2] @ possibleBaseUris_loop b (butlast (butlast parts)) []"
    by (rule loop_acc)
  finally show ?thesis by simp
qed

lemma join_slash_Nil_Cons: "xs \<noteq> [] \<Longrightarrow> join_slash ([] # xs) = CHR ''/'' # join_slash xs"
  by (cases xs) simp_all

lemma split_slash_single_iff: "split_slash s = [[]] \<longleftrightarrow> s = []"
proof
  assume "split_slash s = [[]]"
  then have "join_slash (split_slash s) = []" by simp
  then show "s = []" by (simp add: join_split_slash)
qed simp

lemma getPossibleBaseUris_wf:
  assumes wf: "URL_wf (location w)"
  shows "getPossibleBaseUris w =
     (if path (getWindowBaseUriParts w) = [[]] then [getWindowBaseUriParts w]
      else [getWindowBaseUriParts w,
            (getWindowBaseUriParts w)\<lparr>path :=
               (if butlast (path (getWindowBaseUriParts w)) = [] then [[]]
                else butlast (path (getWindowBaseUriParts w)))\<rparr>])"
proof -
  define base where "base = getWindowBaseUriParts w"
  define t where "t = strip_slashes (URL_pathname (location w))"
  have pb: "path base = split_slash t"
    unfolding base_def t_def using wf by (rule getWindowBaseUriParts_path)
  have pn: "URL_pathname base = CHR ''/'' # t"
    unfolding base_def t_def using getWindowBaseUriParts_pathname[OF wf] by simp
  have ok: "list_all path_segment_ok (split_slash t)"
    unfolding t_def using wf by (rule strip_ok)
  have root: "URL_pathname base = ''/'' \<longleftrightarrow> path base = [[]]"
    by (simp add: pn pb split_slash_single_iff)
  show ?thesis
  proof (cases "path base = [[]]")
    case True
    then show ?thesis using root
      by (simp add: getPossibleBaseUris_def Let_def base_def[symmetric])
  next
    case False
    let ?parts = "[] # split_slash t"
    have ne: "split_slash t \<noteq> []" by (rule split_slash_nonempty)
    have parts: "split_slash (URL_pathname base) = ?parts" by (simp add: pn)
    have bl: "butlast ?parts = [] # butlast (split_slash t)" using ne by simp
    have first: "URL_set_pathname (join_slash ?parts) base = base"
    proof -
      have "join_slash ?parts = CHR ''/'' # t"
        using ne by (simp add: join_slash_Nil_Cons join_split_slash)
      then have "URL_set_pathname (join_slash ?parts) base = base\<lparr>path := split_slash t\<rparr>"
        using ok by (simp add: URL_set_pathname_slash_ok)
      then show ?thesis using pb[symmetric] by simp
    qed
    have second: "URL_set_pathname (join_slash (butlast ?parts)) base =
        base\<lparr>path := (if butlast (path base) = [] then [[]] else butlast (path base))\<rparr>"
    proof (cases "butlast (split_slash t) = []")
      case True
      have "list_all path_segment_ok (split_slash [])" by (simp add: path_segment_ok_Nil)
      then have "URL_set_pathname [] base = base\<lparr>path := split_slash []\<rparr>"
        by (intro URL_set_pathname_ok) simp_all
      then show ?thesis using True by (simp add: bl pb)
    next
      case nb: False
      let ?bs = "butlast (split_slash t)"
      have sub: "set ?bs \<subseteq> set (split_slash t)" by (auto dest: in_set_butlastD)
      then have okb: "list_all path_segment_ok ?bs" using ok by (auto simp: list_all_iff)
      then have "\<forall>x \<in> set ?bs. CHR ''/'' \<notin> set x"
        by (auto simp: list_all_iff path_segment_ok_no_slash)
      with nb have sj: "split_slash (join_slash ?bs) = ?bs" by (intro split_join_slash)
      have "URL_set_pathname (CHR ''/'' # join_slash ?bs) base = base\<lparr>path := split_slash (join_slash ?bs)\<rparr>"
        using okb by (intro URL_set_pathname_slash_ok) (simp add: sj)
      then show ?thesis using nb ne by (simp add: bl pb sj join_slash_Nil_Cons)
    qed
    have "take 2 (possibleBaseUris_loop base ?parts []) =
        [URL_set_pathname (join_slash ?parts) base, URL_set_pathname (join_slash (butlast ?parts)) base]"
      by (rule take_2_loop) (simp_all add: ne)
    then show ?thesis using False root first second
      by (simp add: getPossibleBaseUris_def Let_def base_def[symmetric] parts)
  qed
qed

subsection \<open>Further facts used by the claims\<close>

lemma isHttps_iff: "isHttps w \<longleftrightarrow> scheme (location w) = HTTPS"
  by (cases "scheme (location w)") (simp_all add: isHttps_def URL_href_def)

lemma digits_value_443: "digits_value ''443'' = 443"
  by (simp add: digits_value_def)

lemma digits_value_80: "digits_value ''80'' = 80"
  by (simp add: digits_value_def)

text \<open>
  In production, a page URL without explicit port keeps "no port": the number assigned
  is the default port of the page's scheme, which the setter stores as nothing.
\<close>

lemma getWindowBaseUriParts_port_None:
  assumes "\<not> IS_DEV_ENV w" and "port (location w) = None"
  shows "port (getWindowBaseUriParts w) = None"
proof -
  have "port (URL_set_port (if isHttps w then ''443'' else ''80'') (location w)) = None"
    using assms(2)
    by (cases "scheme (location w)")
       (simp_all add: isHttps_iff URL_set_port_def is_tab_or_newline_def is_ascii_digit_def
          digits_value_443 digits_value_80)
  then show ?thesis
    using assms by (simp add: getWindowBaseUriParts_def Let_def URL_port_def URL_set_pathname_def)
qed

lemma frame_set_pathname:
  "URL_set_pathname v b = b\<lparr>path := path (URL_set_pathname v b)\<rparr>"
  by (simp add: URL_set_pathname_def)

lemma loop_frame:
  "u \<in> set (possibleBaseUris_loop b parts acc) \<Longrightarrow> u \<in> set acc \<or> (\<exists>v. u = URL_set_pathname v b)"
proof (induction parts arbitrary: acc rule: rev_induct)
  case Nil
  then show ?case by (simp add: loop_Nil)
next
  case (snoc x xs)
  from snoc.prems
  have "u \<in> set (possibleBaseUris_loop b xs (acc @ [URL_set_pathname (join_slash (xs @ [x])) b]))"
    by (simp add: loop_step)
  from snoc.IH[OF this] show ?case by auto
qed

lemmas run_defs =
  page_def getPossibleBaseUris_def getWindowBaseUriParts_def Let_def URL_port_def
  URL_hostname_def URL_protocol_def isHttps_def URL_href_def URL_pathname_def URL_set_port_def
  is_tab_or_newline_def is_ascii_digit_def digits_value_def replace_FINAL_SLASH_RE_def
  replace_INITIAL_SLASH_RE_def is_slash_def URL_set_pathname_def path_start_state_def
  is_separator_def percent_encode_def in_path_percent_encode_set_def is_single_dot_def
  is_double_dot_def shorten_def possibleBaseUris_loop.simps decimal.simps digit_char_def
  URL_wf_def path_segment_ok_def strip_slashes_def trimmed_def

lemmas origin_defs =
  isValidOrigin_def origin_platform_def origin_new_URLPattern_def
  origin_new_URLPattern_init_def origin_new_URL_def origin_parts_def origin_test_def
  URL_hostname_def URL_port_def URL_set_port_def is_ascii_digit_def is_tab_or_newline_def
  digits_value_def decimal.simps digit_char_def

section \<open>The claims\<close>

subsection \<open>Origin validation\<close>

text \<open>
  C1. On every platform: when the allowed pattern and its port-less variant can be built,
  the test origin parses as a URL whose hostname is exactly \<^verbatim>\<open>localhost\<close>, and the URL
  matches the port-less variant (built from the pattern's protocol and hostname only),
  \<^verbatim>\<open>isValidOrigin\<close> returns true, whatever the port of the test origin and whether or
  not the full pattern matches.
\<close>

theorem isValidOrigin_localhost:
  assumes "new_URLPattern pf allowedOriginPattern = Inr allowedUrlPattern"
    and "new_URLPattern_init pf (URLPattern_protocol pf allowedUrlPattern)
           (URLPattern_hostname pf allowedUrlPattern) = Inr allowedPortLessPattern"
    and "new_URL pf testOrigin = Inr testUrl"
    and "hostname_of pf testUrl = ''localhost''"
    and "URLPattern_test pf allowedPortLessPattern testUrl"
  shows "isValidOrigin pf allowedOriginPattern testOrigin = Inr True"
  using assms by (simp add: isValidOrigin_def)

text \<open>
  The run \<^verbatim>\<open>isValidOrigin("https://localhost", "https://localhost:9999")\<close>: the
  full pattern does not match port 9999, the port-less one does.
\<close>

theorem isValidOrigin_localhost_witness:
  "new_URLPattern origin_platform ''https://localhost'' =
     Inr \<lparr>pattern_protocol = ''https'', pattern_hostname = ''localhost'', pattern_port = ''''\<rparr>
   \<and> new_URL origin_platform ''https://localhost:9999'' =
     Inr \<lparr>scheme = HTTPS, username = [], password = [], host = ''localhost'',
          port = Some 9999, path = [[]], query = None, fragment = None\<rparr>
   \<and> \<not> URLPattern_test origin_platform
         \<lparr>pattern_protocol = ''https'', pattern_hostname = ''localhost'', pattern_port = ''''\<rparr>
         \<lparr>scheme = HTTPS, username = [], password = [], host = ''localhost'',
          port = Some 9999, path = [[]], query = None, fragment = None\<rparr>
   \<and> isValidOrigin origin_platform ''https://localhost'' ''https://localhost:9999'' = Inr True"
proof -
  let ?p = "\<lparr>pattern_protocol = ''https'', pattern_hostname = ''localhost'', pattern_port = ''''\<rparr>"
  let ?pl = "\<lparr>pattern_protocol = ''https'', pattern_hostname = ''localhost'', pattern_port = ''*''\<rparr>"
  let ?u = "\<lparr>scheme = HTTPS, username = [], password = [], host = ''localhost'',
          port = Some 9999, path = [[]], query = None, fragment = None\<rparr>"
  have h1: "new_URLPattern origin_platform ''https://localhost'' = Inr ?p"
    by (simp add: origin_defs)
  have h2: "new_URLPattern_init origin_platform (URLPattern_protocol origin_platform ?p)
              (URLPattern_hostname origin_platform ?p) = Inr ?pl"
    by (simp add: origin_defs)
  have h3: "new_URL origin_platform ''https://localhost:9999'' = Inr ?u"
    by (simp add: origin_defs)
  have h4: "hostname_of origin_platform ?u = ''localhost''"
    by (simp add: origin_defs)
  have h5: "URLPattern_test origin_platform ?pl ?u"
    by (simp add: origin_defs)
  have n: "\<not> URLPattern_test origin_platform ?p ?u"
    by (simp add: origin_defs)
  show ?thesis
    using isValidOrigin_localhost[OF h1 h2 h3 h4 h5] h1 h3 n by simp
qed

text \<open>
  C2. On every platform, \<^verbatim>\<open>isValidOrigin\<close> returns a boolean and raises nothing, and
  it returns false whenever one of the constructors throws: the pattern from
  \<open>allowedOriginPattern\<close>, the port-less pattern from its protocol and hostname, or the
  URL from \<open>testOrigin\<close>.
\<close>

theorem isValidOrigin_never_raises:
  "(\<exists>b. isValidOrigin pf allowedOriginPattern testOrigin = Inr b)
   \<and> (isl (new_URLPattern pf allowedOriginPattern) \<longrightarrow>
        isValidOrigin pf allowedOriginPattern testOrigin = Inr False)
   \<and> (\<forall>p. new_URLPattern pf allowedOriginPattern = Inr p
          \<and> isl (new_URLPattern_init pf (URLPattern_protocol pf p) (URLPattern_hostname pf p)) \<longrightarrow>
        isValidOrigin pf allowedOriginPattern testOrigin = Inr False)
   \<and> (isl (new_URL pf testOrigin) \<longrightarrow>
        isValidOrigin pf allowedOriginPattern testOrigin = Inr False)"
  by (auto simp: isValidOrigin_def split: sum.splits)

text \<open>
  The runs \<^verbatim>\<open>isValidOrigin("not a valid pattern", "https://example.com")\<close>, where the
  pattern does not parse, and \<^verbatim>\<open>isValidOrigin("https://example.com", "example.com")\<close>,
  where the test origin does not.
\<close>

theorem isValidOrigin_never_raises_witness:
  "isl (new_URLPattern origin_platform ''not a valid pattern'')
   \<and> isValidOrigin origin_platform ''not a valid pattern'' ''https://example.com'' = Inr False
   \<and> isl (new_URL origin_platform ''example.com'')
   \<and> isValidOrigin origin_platform ''https://example.com'' ''example.com'' = Inr False"
proof -
  have h1: "isl (new_URLPattern origin_platform ''not a valid pattern'')"
    by (simp add: origin_defs)
  have h2: "isl (new_URL origin_platform ''example.com'')"
    by (simp add: origin_defs)
  show ?thesis
    using isValidOrigin_never_raises[of origin_platform "''not a valid pattern''" "''https://example.com''"]
      isValidOrigin_never_raises[of origin_platform "''https://example.com''" "''example.com''"]
      h1 h2
    by simp
qed

subsection \<open>Path joining\<close>

text \<open>
  C5, as stated, fails: joining the result with the empty sub-path appends a slash.
  \<^verbatim>\<open>makePath("a", "b")\<close> is \<^verbatim>\<open>"a/b"\<close> and \<^verbatim>\<open>makePath("a/b", "")\<close> is \<^verbatim>\<open>"a/b/"\<close>.
\<close>

theorem makePath_idempotent_counterexample:
  "makePath ''a'' ''b'' = ''a/b'' \<and> makePath (makePath ''a'' ''b'') '''' = ''a/b/''
   \<and> makePath (makePath ''a'' ''b'') '''' \<noteq> makePath ''a'' ''b''"
  by (simp add: makePath_def replace_FINAL_SLASH_RE_def replace_INITIAL_SLASH_RE_def is_slash_def)

text \<open>
  C5, amended. For all strings \<open>a\<close> and \<open>b\<close>, \<^verbatim>\<open>makePath(makePath(a, b), "")\<close> equals
  \<^verbatim>\<open>makePath(a, b)\<close> when \<open>b\<close> is empty after slash stripping, and is
  \<^verbatim>\<open>makePath(a, b)\<close> followed by one slash otherwise.
\<close>

theorem makePath_again:
  "makePath (makePath a b) [] =
     (if strip_slashes b = [] then makePath a b else makePath a b @ ''/'')"
proof -
  let ?a = "strip_slashes a" and ?b = "strip_slashes b"
  have ta: "trimmed ?a" and tb: "trimmed ?b" by (rule trimmed_strip_slashes)+
  define r where "r = makePath a b"
  have goal: "makePath r [] = (if ?b = [] then r else r @ ''/'')"
  proof (cases "?a = []")
    case True
    then have r: "r = ?b" by (simp add: r_def makePath_eq)
    have "strip_slashes r = r" unfolding r by (rule strip_slashes_trimmed_id[OF tb])
    then show ?thesis using r by (simp add: makePath_nil)
  next
    case an: False
    show ?thesis
    proof (cases "?b = []")
      case True
      then have r: "r = ?a @ ''/''" using an by (simp add: r_def makePath_eq)
      have "strip_slashes r = ?a" unfolding r
        using ta by (simp add: strip_slashes_def final_append_slash replace_INITIAL_SLASH_RE_def dropWhile_trimmed_id)
      then show ?thesis using True an r by (simp add: makePath_nil)
    next
      case False
      then have r: "r = ?a @ ''/'' @ ?b" using an by (simp add: r_def makePath_eq)
      have "strip_slashes r = r" unfolding r
        using ta tb an False by (intro strip_slashes_trimmed_id trimmed_join)
      moreover have "r \<noteq> []" using r by simp
      ultimately show ?thesis using False by (simp add: makePath_nil)
    qed
  qed
  then show ?thesis by (simp add: r_def)
qed

text \<open>
  C8, as stated, fails for the empty base path, which contains no slash:
  \<^verbatim>\<open>makePath("", "x")\<close> is \<^verbatim>\<open>"x"\<close>, not \<^verbatim>\<open>"/x"\<close>.
\<close>

theorem makePath_no_slashes_counterexample:
  "CHR ''/'' \<notin> set '''' \<and> CHR ''/'' \<notin> set ''x''
   \<and> makePath '''' ''x'' = ''x'' \<and> makePath '''' ''x'' \<noteq> '''' @ ''/'' @ ''x''"
  by (simp add: makePath_def replace_FINAL_SLASH_RE_def replace_INITIAL_SLASH_RE_def is_slash_def)

text \<open>
  C8, amended. For all strings \<open>a\<close> and \<open>b\<close> without slash, \<^verbatim>\<open>makePath(a, b)\<close> is
  \<open>a\<close>, a slash, then \<open>b\<close> when \<open>a\<close> is not empty, and is \<open>b\<close> alone when \<open>a\<close> is empty.
\<close>

theorem makePath_no_slashes:
  assumes "CHR ''/'' \<notin> set a" and "CHR ''/'' \<notin> set b"
  shows "makePath a b = (if a = [] then b else a @ ''/'' @ b)"
  using assms by (simp add: makePath_eq strip_slashes_no_slash)

theorem makePath_no_slashes_witness:
  "CHR ''/'' \<notin> set ''foo'' \<and> CHR ''/'' \<notin> set ''bar''
   \<and> makePath ''foo'' ''bar'' = ''foo/bar'' \<and> makePath '''' ''bar'' = ''bar''"
proof -
  have h1: "CHR ''/'' \<notin> set ''foo''" and h2: "CHR ''/'' \<notin> set ''bar''"
    and h3: "CHR ''/'' \<notin> set ''''" by simp_all
  show ?thesis
    using makePath_no_slashes[OF h1 h2] makePath_no_slashes[OF h3 h2] by simp
qed

subsection \<open>URI builders\<close>

text \<open>
  C9. For every Base URI \<open>b\<close> and path \<open>p\<close>, \<^verbatim>\<open>buildWsUri(b, p)\<close> is the scheme, then
  \<^verbatim>\<open>://\<close>, the hostname of \<open>b\<close>, a colon, the port of \<open>b\<close>, a slash, and
  \<^verbatim>\<open>makePath(b.pathname, p)\<close>, where the scheme is \<^verbatim>\<open>wss\<close> when the page was loaded
  over HTTPS and \<^verbatim>\<open>ws\<close> otherwise; \<^verbatim>\<open>buildHttpUri\<close> is the same with \<^verbatim>\<open>https\<close> and
  \<^verbatim>\<open>http\<close>.
\<close>

theorem buildWsUri_buildHttpUri:
  "buildWsUri w b p =
     (if scheme (location w) = HTTPS then ''wss'' else ''ws'') @ ''://'' @ URL_hostname b
       @ '':'' @ URL_port b @ ''/'' @ makePath (URL_pathname b) p
   \<and> buildHttpUri w b p =
     (if scheme (location w) = HTTPS then ''https'' else ''http'') @ ''://'' @ URL_hostname b
       @ '':'' @ URL_port b @ ''/'' @ makePath (URL_pathname b) p"
  by (simp add: buildWsUri_def buildHttpUri_def isHttps_iff)

subsection \<open>The base URI\<close>

text \<open>
  C4, as stated, fails: the \<^verbatim>\<open>pathname\<close> of the returned URL starts with a slash. For
  the page \<^verbatim>\<open>https://example.com/foo/\<close> it is \<^verbatim>\<open>"/foo"\<close>, and for the root page
  \<^verbatim>\<open>https://example.com/\<close> it is \<^verbatim>\<open>"/"\<close>, which also ends with a slash.
\<close>

theorem getWindowBaseUriParts_pathname_counterexample:
  "URL_wf (location (page HTTPS None [''foo'', '''']))
   \<and> URL_pathname (location (page HTTPS None [''foo'', ''''])) = ''/foo/''
   \<and> URL_pathname (getWindowBaseUriParts (page HTTPS None [''foo'', ''''])) = ''/foo''
   \<and> hd (URL_pathname (getWindowBaseUriParts (page HTTPS None [''foo'', '''']))) = CHR ''/''
   \<and> URL_pathname (getWindowBaseUriParts (page HTTPS None [''''])) = ''/''"
  by (simp add: run_defs)

text \<open>
  C4, amended. For every well-formed page URL, the \<^verbatim>\<open>pathname\<close> of the Base URI
  returned by \<^verbatim>\<open>getWindowBaseUriParts()\<close> is one slash followed by the page's
  \<^verbatim>\<open>pathname\<close> with all leading and all trailing slashes removed; what follows that
  first slash has no leading and no trailing slash (for the root page nothing follows).
\<close>

theorem getWindowBaseUriParts_pathname_normalised:
  assumes "URL_wf (location w)"
  shows "URL_pathname (getWindowBaseUriParts w) =
           CHR ''/'' # strip_slashes (URL_pathname (location w))
         \<and> trimmed (strip_slashes (URL_pathname (location w)))"
  using getWindowBaseUriParts_pathname[OF assms] trimmed_strip_slashes by simp

theorem getWindowBaseUriParts_pathname_normalised_witness:
  "URL_wf (location (page HTTP (Some 9988) ['''', ''foo'', ''bar'', '''', '''']))
   \<and> URL_pathname (location (page HTTP (Some 9988) ['''', ''foo'', ''bar'', '''', ''''])) = ''//foo/bar//''
   \<and> URL_pathname (getWindowBaseUriParts (page HTTP (Some 9988) ['''', ''foo'', ''bar'', '''', '''']))
       = ''/foo/bar''
   \<and> trimmed ''foo/bar''"
proof -
  let ?w = "page HTTP (Some 9988) ['''', ''foo'', ''bar'', '''', '''']"
  have h: "URL_wf (location ?w)" by (simp add: run_defs)
  have s: "strip_slashes (URL_pathname (location ?w)) = ''foo/bar''" by (simp add: run_defs)
  have p: "URL_pathname (location ?w) = ''//foo/bar//''" by (simp add: run_defs)
  show ?thesis
    using getWindowBaseUriParts_pathname_normalised[OF h] h p unfolding s by simp
qed

text \<open>
  C6 does not hold of the code. In production, for the page \<^verbatim>\<open>https://example.com/\<close>
  the source assigns \<^verbatim>\<open>"443"\<close> to \<^verbatim>\<open>currentUrl.port\<close>, and for
  \<^verbatim>\<open>http://example.com/\<close> it assigns \<^verbatim>\<open>"80"\<close>; each is the default port of the
  scheme, which the URL object stores as "no port", so the \<^verbatim>\<open>port\<close> of the returned
  Base URI is the empty string and \<^verbatim>\<open>buildWsUri\<close> writes nothing between the colon and
  the slash.
\<close>

theorem getWindowBaseUriParts_default_port_run:
  "IS_DEV_ENV (page HTTPS None ['''']) = False
   \<and> URL_port (location (page HTTPS None [''''])) = ''''
   \<and> isHttps (page HTTPS None [''''])
   \<and> URL_port (getWindowBaseUriParts (page HTTPS None [''''])) = ''''
   \<and> URL_port (getWindowBaseUriParts (page HTTPS None [''''])) \<noteq> ''443''
   \<and> buildWsUri (page HTTPS None ['''']) (getWindowBaseUriParts (page HTTPS None [''''])) ''stream''
       = ''wss://example.com:/stream''
   \<and> \<not> isHttps (page HTTP None [''''])
   \<and> URL_port (getWindowBaseUriParts (page HTTP None [''''])) = ''''
   \<and> URL_port (getWindowBaseUriParts (page HTTP None [''''])) \<noteq> ''80''"
  by (simp add: run_defs buildWsUri_def makePath_def)

subsection \<open>Candidate base URIs\<close>

text \<open>
  C3, as stated, fails. For the page \<^verbatim>\<open>https://example.com/foo\<close> the normalised
  \<^verbatim>\<open>pathname\<close> is \<^verbatim>\<open>"/foo"\<close>, \<^verbatim>\<open>"/foo".split("/")\<close> is \<^verbatim>\<open>["", "foo"]\<close>, and the
  loop runs twice: the candidates are \<^verbatim>\<open>https://example.com/foo\<close> and
  \<^verbatim>\<open>https://example.com/\<close>.
\<close>

theorem getPossibleBaseUris_one_segment_counterexample:
  "path (getWindowBaseUriParts (page HTTPS None [''foo''])) = [''foo'']
   \<and> map URL_href (getPossibleBaseUris (page HTTPS None [''foo''])) =
       [''https://example.com/foo'', ''https://example.com/'']
   \<and> length (getPossibleBaseUris (page HTTPS None [''foo''])) \<noteq> 1"
  by (simp add: run_defs)

text \<open>
  C3, amended. For every well-formed page URL whose normalised path consists of exactly
  one non-empty segment, \<^verbatim>\<open>getPossibleBaseUris()\<close> returns exactly two candidates, in
  this order: the Base URI itself, with \<^verbatim>\<open>pathname\<close> a slash and the segment, and the
  Base URI with the root path, whose \<^verbatim>\<open>pathname\<close> is \<^verbatim>\<open>"/"\<close>.
\<close>

theorem getPossibleBaseUris_one_segment:
  assumes "URL_wf (location w)"
    and "path (getWindowBaseUriParts w) = [segment]"
    and "segment \<noteq> []"
  shows "getPossibleBaseUris w =
           [getWindowBaseUriParts w, (getWindowBaseUriParts w)\<lparr>path := [[]]\<rparr>]
         \<and> map URL_pathname (getPossibleBaseUris w) = [CHR ''/'' # segment, ''/'']"
proof -
  have l: "getPossibleBaseUris w =
           [getWindowBaseUriParts w, (getWindowBaseUriParts w)\<lparr>path := [[]]\<rparr>]"
    using getPossibleBaseUris_wf[OF assms(1)] assms(2,3) by simp
  show ?thesis unfolding l using assms(2) by (simp add: URL_pathname_def)
qed

theorem getPossibleBaseUris_one_segment_witness:
  "URL_wf (location (page HTTP None [''foo'', '''']))
   \<and> path (getWindowBaseUriParts (page HTTP None [''foo'', ''''])) = [''foo'']
   \<and> map URL_pathname (getPossibleBaseUris (page HTTP None [''foo'', ''''])) = [''/foo'', ''/'']"
proof -
  let ?w = "page HTTP None [''foo'', '''']"
  have h1: "URL_wf (location ?w)" by (simp add: run_defs)
  have h2: "path (getWindowBaseUriParts ?w) = [''foo'']" by (simp add: run_defs)
  have h3: "''foo'' \<noteq> []" by simp
  from getPossibleBaseUris_one_segment[OF h1 h2 h3]
  have "map URL_pathname (getPossibleBaseUris ?w) = [''/foo'', ''/'']" by (rule conjunct2)
  with h1 h2 show ?thesis by (intro conjI)
qed

text \<open>
  C7. For every page URL whose normalised base path consists of the two segments
  \<^verbatim>\<open>foo\<close> and \<^verbatim>\<open>bar\<close>, \<^verbatim>\<open>getPossibleBaseUris()\<close> returns exactly two candidates, in
  this order: the one with path \<^verbatim>\<open>foo/bar\<close> (the Base URI itself) and the one with
  path \<^verbatim>\<open>foo\<close>. The path of a URL object is its list of segments; the \<^verbatim>\<open>pathname\<close>
  getter writes it with a slash in front of each segment, \<^verbatim>\<open>"/foo/bar"\<close> and
  \<^verbatim>\<open>"/foo"\<close>, and stripping the slashes gives \<^verbatim>\<open>"foo/bar"\<close> and \<^verbatim>\<open>"foo"\<close>.
\<close>

theorem getPossibleBaseUris_foo_bar:
  assumes "path (getWindowBaseUriParts w) = [''foo'', ''bar'']"
  shows "getPossibleBaseUris w =
           [getWindowBaseUriParts w, (getWindowBaseUriParts w)\<lparr>path := [''foo'']\<rparr>]
         \<and> map path (getPossibleBaseUris w) = [[''foo'', ''bar''], [''foo'']]
         \<and> map URL_pathname (getPossibleBaseUris w) = [''/foo/bar'', ''/foo'']
         \<and> map (\<lambda>u. strip_slashes (URL_pathname u)) (getPossibleBaseUris w) = [''foo/bar'', ''foo'']"
proof -
  define base where "base = getWindowBaseUriParts w"
  have p: "path base = [''foo'', ''bar'']" using assms by (simp add: base_def)
  have pn: "URL_pathname base = ''/foo/bar''" by (simp add: URL_pathname_def p)
  have sp: "split_slash ''/foo/bar'' = ['''', ''foo'', ''bar'']" by simp
  have t: "take 2 (possibleBaseUris_loop base ['''', ''foo'', ''bar''] []) =
      [URL_set_pathname (join_slash ['''', ''foo'', ''bar'']) base,
       URL_set_pathname (join_slash (butlast ['''', ''foo'', ''bar''])) base]"
    by (rule take_2_loop) simp_all
  have s1: "URL_set_pathname (join_slash ['''', ''foo'', ''bar'']) base = base\<lparr>path := [''foo'', ''bar'']\<rparr>"
    by (simp add: URL_set_pathname_def path_start_state_def is_tab_or_newline_def is_separator_def
        percent_encode_def in_path_percent_encode_set_def is_single_dot_def is_double_dot_def)
  have s2: "URL_set_pathname (join_slash (butlast ['''', ''foo'', ''bar''])) base = base\<lparr>path := [''foo'']\<rparr>"
    by (simp add: URL_set_pathname_def path_start_state_def is_tab_or_newline_def is_separator_def
        percent_encode_def in_path_percent_encode_set_def is_single_dot_def is_double_dot_def)
  have b: "base\<lparr>path := [''foo'', ''bar'']\<rparr> = base" using p[symmetric] by simp
  have l: "getPossibleBaseUris w = [base, base\<lparr>path := [''foo'']\<rparr>]"
    by (simp add: getPossibleBaseUris_def Let_def base_def[symmetric] pn sp t s1 s2 b del: split_slash.simps join_slash.simps butlast.simps)
  show ?thesis
    unfolding base_def[symmetric] l using p pn
    by (simp add: URL_pathname_def strip_slashes_def replace_FINAL_SLASH_RE_def
        replace_INITIAL_SLASH_RE_def is_slash_def)
qed

theorem getPossibleBaseUris_foo_bar_witness:
  "path (getWindowBaseUriParts (page HTTPS None [''foo'', ''bar'', ''''])) = [''foo'', ''bar'']
   \<and> map URL_href (getPossibleBaseUris (page HTTPS None [''foo'', ''bar'', ''''])) =
       [''https://example.com/foo/bar'', ''https://example.com/foo'']
   \<and> map URL_pathname (getPossibleBaseUris (page HTTPS None [''foo'', ''bar'', ''''])) =
       [''/foo/bar'', ''/foo'']"
proof -
  let ?w = "page HTTPS None [''foo'', ''bar'', '''']"
  have h: "path (getWindowBaseUriParts ?w) = [''foo'', ''bar'']" by (simp add: run_defs)
  have r: "map URL_href (getPossibleBaseUris ?w) =
       [''https://example.com/foo/bar'', ''https://example.com/foo'']" by (simp add: run_defs)
  from getPossibleBaseUris_foo_bar[OF h]
  have "map URL_pathname (getPossibleBaseUris ?w) = [''/foo/bar'', ''/foo'']" by (elim conjE)
  with h r show ?thesis by (intro conjI)
qed

text \<open>
  C10. For every page URL, every candidate returned by \<^verbatim>\<open>getPossibleBaseUris()\<close> is
  the Base URI returned by \<^verbatim>\<open>getWindowBaseUriParts()\<close> with at most its path replaced:
  scheme, credentials, host, port, query and fragment are the same, and so are what
  the getters \<^verbatim>\<open>protocol\<close>, \<^verbatim>\<open>hostname\<close> and \<^verbatim>\<open>port\<close> return.
\<close>

theorem getPossibleBaseUris_frame:
  "\<forall>u \<in> set (getPossibleBaseUris w).
     u = (getWindowBaseUriParts w)\<lparr>path := path u\<rparr>
     \<and> URL_protocol u = URL_protocol (getWindowBaseUriParts w)
     \<and> URL_hostname u = URL_hostname (getWindowBaseUriParts w)
     \<and> URL_port u = URL_port (getWindowBaseUriParts w)"
proof
  fix u
  assume m: "u \<in> set (getPossibleBaseUris w)"
  define base where "base = getWindowBaseUriParts w"
  have "u = base \<or> (\<exists>v. u = URL_set_pathname v base)"
  proof (cases "URL_pathname base = ''/''")
    case True
    then show ?thesis using m by (simp add: getPossibleBaseUris_def Let_def base_def[symmetric])
  next
    case False
    then have "u \<in> set (take 2 (possibleBaseUris_loop base (split_slash (URL_pathname base)) []))"
      using m by (simp add: getPossibleBaseUris_def Let_def base_def[symmetric])
    then have "u \<in> set (possibleBaseUris_loop base (split_slash (URL_pathname base)) [])"
      by (rule in_set_takeD)
    from loop_frame[OF this] show ?thesis by simp
  qed
  then have e: "u = base\<lparr>path := path u\<rparr>"
  proof
    assume "u = base"
    then show ?thesis by simp
  next
    assume "\<exists>v. u = URL_set_pathname v base"
    then obtain v where "u = URL_set_pathname v base" ..
    then show ?thesis using frame_set_pathname[of v base] by simp
  qed
  have "scheme u = scheme base \<and> host u = host base \<and> port u = port base"
    by (subst e, simp)+
  then show "u = (getWindowBaseUriParts w)\<lparr>path := path u\<rparr>
     \<and> URL_protocol u = URL_protocol (getWindowBaseUriParts w)
     \<and> URL_hostname u = URL_hostname (getWindowBaseUriParts w)
     \<and> URL_port u = URL_port (getWindowBaseUriParts w)"
    using e by (simp add: base_def URL_protocol_def URL_hostname_def URL_port_def)
qed

theorem getPossibleBaseUris_frame_witness:
  "map URL_href (getPossibleBaseUris (page HTTPS (Some 9988) [''foo'', ''bar''])) =
       [''https://example.com:9988/foo/bar'', ''https://example.com:9988/foo'']
   \<and> URL_href (getWindowBaseUriParts (page HTTPS (Some 9988) [''foo'', ''bar''])) =
       ''https://example.com:9988/foo/bar''
   \<and> (getWindowBaseUriParts (page HTTPS (Some 9988) [''foo'', ''bar'']))\<lparr>path := [''foo'']\<rparr>
       \<in> set (getPossibleBaseUris (page HTTPS (Some 9988) [''foo'', ''bar'']))
   \<and> URL_port ((getWindowBaseUriParts (page HTTPS (Some 9988) [''foo'', ''bar'']))\<lparr>path := [''foo'']\<rparr>)
       = URL_port (getWindowBaseUriParts (page HTTPS (Some 9988) [''foo'', ''bar'']))
   \<and> URL_hostname ((getWindowBaseUriParts (page HTTPS (Some 9988) [''foo'', ''bar'']))\<lparr>path := [''foo'']\<rparr>)
       = ''example.com''"
proof -
  let ?w = "page HTTPS (Some 9988) [''foo'', ''bar'']"
  have m: "(getWindowBaseUriParts ?w)\<lparr>path := [''foo'']\<rparr> \<in> set (getPossibleBaseUris ?w)"
    by (simp add: run_defs)
  have r: "map URL_href (getPossibleBaseUris ?w) =
       [''https://example.com:9988/foo/bar'', ''https://example.com:9988/foo'']"
    by (simp add: run_defs)
  have b: "URL_href (getWindowBaseUriParts ?w) = ''https://example.com:9988/foo/bar''"
    by (simp add: run_defs)
  have h: "URL_hostname (getWindowBaseUriParts ?w) = ''example.com''"
    by (simp add: run_defs)
  show ?thesis
    using getPossibleBaseUris_frame[of ?w, THEN bspec, OF m] m r b h by simp
qed

end
